theory Spec2Isabelle
  imports Main "HOL-Library.Word"
begin

section \<open>The process and its environment\<close>

text \<open>
  A shallow embedding of \<^verbatim>\<open>tash.c\<close>, a small interactive shell: a loop reads a line,
  splits it into tokens and dispatches them to a builtin (\<^verbatim>\<open>cd\<close>, \<^verbatim>\<open>help\<close>, \<^verbatim>\<open>exit\<close>) or
  to an external program. \<^verbatim>\<open>tash_USE_STD_GETLINE\<close> is not defined in the file, so the
  reader is the \<^verbatim>\<open>getchar\<close> loop of the \<^verbatim>\<open>#else\<close> branch.

  The model follows one process executing the program. What the process can observe and
  change is the \<open>world\<close>: the bytes still to come on standard input (after the last one
  \<^verbatim>\<open>getchar\<close> reports end-of-file, every time), the bytes this process has written so far
  to standard output and to standard error, and the current working directory.
\<close>

record world =
  w_stdin :: string
  w_stdout :: string
  w_stderr :: string
  w_cwd :: string

text \<open>
  What the operating system and the C library answer is a parameter of every function:
  \<^item> \<open>os_chdir cwd path\<close>: \<^verbatim>\<open>chdir\<close> fails with an \<^verbatim>\<open>errno\<close> (and leaves the working
    directory alone), or succeeds with the new working directory;
  \<^item> \<open>os_fork\<close>: what \<^verbatim>\<open>fork\<close> returns in the process the model follows: \<open>-1\<close> with an
    \<^verbatim>\<open>errno\<close>, \<open>0\<close> (this process is the child), or the child's pid (this process is the parent);
  \<^item> \<open>os_execvp args\<close>: \<open>None\<close> when \<^verbatim>\<open>execvp\<close> replaces the process image (it does not
    return), \<open>Some e\<close> when it returns \<open>-1\<close> with \<^verbatim>\<open>errno\<close> \<open>e\<close>;
  \<^item> \<open>os_wait\<close>: the status changes of the child that successive calls of \<^verbatim>\<open>waitpid\<close> with
    \<^verbatim>\<open>WUNTRACED\<close> report; when the list is used up the child never changes state again
    and \<^verbatim>\<open>waitpid\<close> blocks for ever;
  \<^item> \<open>os_strerror\<close>: the text \<^verbatim>\<open>perror\<close> prints for an \<^verbatim>\<open>errno\<close>;
  \<^item> \<open>os_alloc n\<close>: the address \<^verbatim>\<open>malloc\<close> or \<^verbatim>\<open>realloc\<close> returns for a request of \<open>n\<close>
    bytes, \<open>0\<close> (the null pointer) when the allocation fails.
\<close>

type_synonym errno = nat
type_synonym addr = "64 word"

datatype fork_ret = Fork_Error errno | Fork_Child | Fork_Parent nat

datatype wstatus = W_Exited int | W_Signaled int | W_Stopped int

record os =
  os_chdir :: "string \<Rightarrow> string \<Rightarrow> errno + string"
  os_fork :: fork_ret
  os_execvp :: "string list \<Rightarrow> errno option"
  os_wait :: "wstatus list"
  os_strerror :: "errno \<Rightarrow> string"
  os_alloc :: "nat \<Rightarrow> addr"

text \<open>
  A C function of the program either returns a value, or the process does not come back
  from the call: it has left through the C library's \<^verbatim>\<open>exit\<close> with a status, its image has
  been replaced by \<^verbatim>\<open>execvp\<close>, it blocks for ever in \<^verbatim>\<open>waitpid\<close>, or it has run into
  behaviour the C standard leaves undefined (a store through the null pointer, a read past
  the end of an array, signed overflow).
\<close>

datatype 'a result =
    Return 'a world
  | Exit int world
  | Exec "string list" world
  | Blocked world
  | UB world

fun bind_result :: "'a result \<Rightarrow> ('a \<Rightarrow> world \<Rightarrow> 'b result) \<Rightarrow> 'b result" where
  "bind_result (Return v w) f = f v w"
| "bind_result (Exit s w) f = Exit s w"
| "bind_result (Exec a w) f = Exec a w"
| "bind_result (Blocked w) f = Blocked w"
| "bind_result (UB w) f = UB w"

lemma bind_result_cong [fundef_cong]:
  assumes "r = r'" and "\<And>v w. r' = Return v w \<Longrightarrow> f v w = f' v w"
  shows "bind_result r f = bind_result r' f'"
  using assms by (cases r') auto

text \<open>
  \<^verbatim>\<open>char **args\<close>: the pointer itself and the tokens it points to (the array ends with a
  null pointer, so a read at index \<open>length\<close> yields \<^verbatim>\<open>NULL\<close> and a read beyond it is out of
  bounds). The value of the pointer matters in one place only, where it is handed to
  \<^verbatim>\<open>exit\<close>.
\<close>

record argv =
  av_ptr :: addr
  av_toks :: "string list"

definition EXIT_SUCCESS :: int where
  "EXIT_SUCCESS = 0"

definition EXIT_FAILURE :: int where
  "EXIT_FAILURE = 1"

definition INT_MAX :: nat where
  "INT_MAX = 2147483647"

definition printf :: "string \<Rightarrow> world \<Rightarrow> world" where
  "printf s w = w\<lparr>w_stdout := w_stdout w @ s\<rparr>"

definition fprintf_stderr :: "string \<Rightarrow> world \<Rightarrow> world" where
  "fprintf_stderr s w = w\<lparr>w_stderr := w_stderr w @ s\<rparr>"

definition perror :: "os \<Rightarrow> errno \<Rightarrow> string \<Rightarrow> world \<Rightarrow> world" where
  "perror os e s w = fprintf_stderr (s @ '': '' @ os_strerror os e @ [CHR 0x0A]) w"

text \<open>\<^verbatim>\<open>strcmp\<close> on two strings: zero exactly when they are equal, else the sign of the
  first difference (bytes compared as unsigned).\<close>

fun strcmp :: "string \<Rightarrow> string \<Rightarrow> int" where
  "strcmp [] [] = 0"
| "strcmp [] (b # bs) = - 1"
| "strcmp (a # as) [] = 1"
| "strcmp (a # as) (b # bs) =
     (if a = b then strcmp as bs
      else if (of_char a :: nat) < of_char b then - 1 else 1)"


section \<open>Builtin commands\<close>

definition builtin_str :: "string list" where
  "builtin_str = [''cd'', ''help'', ''exit'']"

definition tash_num_builtins :: nat where
  "tash_num_builtins = length builtin_str"

text \<open>The usage message of \<^verbatim>\<open>cd\<close>: \<^verbatim>\<open>tash: expected argument to "cd"\<close> and a newline.\<close>

definition usage_error :: string where
  "usage_error = ''tash: expected argument to '' @ [CHR 0x22] @ ''cd'' @ [CHR 0x22, CHR 0x0A]"

text \<open>
  \<^verbatim>\<open>cd\<close> reads \<^verbatim>\<open>args[1]\<close>: the second token, \<^verbatim>\<open>NULL\<close> when the vector has one token, and a
  read past the terminating null pointer when the vector is empty.
\<close>

definition cd :: "os \<Rightarrow> argv \<Rightarrow> world \<Rightarrow> int result" where
  "cd os args w =
     (case av_toks args of
        [] \<Rightarrow> UB w
      | [arg0] \<Rightarrow>
          Return 1 (fprintf_stderr usage_error w)
      | arg0 # arg1 # rest \<Rightarrow>
          (case os_chdir os (w_cwd w) arg1 of
             Inl e \<Rightarrow> Return 1 (perror os e ''tash'' w)
           | Inr d \<Rightarrow> Return 1 (w\<lparr>w_cwd := d\<rparr>)))"

text \<open>The source's \<^verbatim>\<open>help\<close> (the name is taken in Isabelle).\<close>

definition help_cmd :: "os \<Rightarrow> argv \<Rightarrow> world \<Rightarrow> int result" where
  "help_cmd os args w =
     (let w1 = printf (''The Amazing SHell:TASH!'' @ [CHR 0x0A]) w;
          w2 = printf (''Type program names and arguments, and hit enter.'' @ [CHR 0x0A]) w1;
          w3 = printf (''The following are built in:'' @ [CHR 0x0A]) w2;
          w4 = fold (\<lambda>i. printf (''  '' @ builtin_str ! i @ [CHR 0x0A])) [0..<tash_num_builtins] w3;
          w5 = printf (''Use the man command for information on other programs.'' @ [CHR 0x0A]) w4
      in Return 1 w5)"

text \<open>\<^verbatim>\<open>tash_exit\<close> does not examine its argument and returns \<open>0\<close>; it does not end the
  process.\<close>

definition tash_exit :: "'a \<Rightarrow> world \<Rightarrow> int result" where
  "tash_exit args w = Return 0 w"

text \<open>The C library's \<^verbatim>\<open>exit\<close>: the process ends with the given status and the call does not
  return. The parent of the process sees the low eight bits of the status.\<close>

definition libc_exit :: "int \<Rightarrow> world \<Rightarrow> 'a result" where
  "libc_exit status w = Exit status w"

definition exit_code :: "int \<Rightarrow> int" where
  "exit_code status = status mod 256"

text \<open>
  The third entry of \<^verbatim>\<open>builtin_func\<close> is \<^verbatim>\<open>&exit\<close>, the C library's function, stored in a
  table of \<^verbatim>\<open>int (*)(char **)\<close>. The dispatcher calls it with \<^verbatim>\<open>args\<close>; \<^verbatim>\<open>exit\<close> takes an
  \<^verbatim>\<open>int\<close>. The C standard leaves a call through a pointer of another function type
  undefined; on the LP64 calling conventions the callee finds the pointer in the register
  of its first parameter and reads the low 32 bits as its \<^verbatim>\<open>int\<close>, which is what the model
  does.
\<close>

definition exit_called_with_args :: "os \<Rightarrow> argv \<Rightarrow> world \<Rightarrow> int result" where
  "exit_called_with_args os args w = libc_exit (sint (ucast (av_ptr args) :: 32 word)) w"

definition builtin_func :: "(os \<Rightarrow> argv \<Rightarrow> world \<Rightarrow> int result) list" where
  "builtin_func = [cd, help_cmd, exit_called_with_args]"


section \<open>Launching a program\<close>

definition WIFEXITED :: "wstatus \<Rightarrow> bool" where
  "WIFEXITED s = (case s of W_Exited c \<Rightarrow> True | _ \<Rightarrow> False)"

definition WIFSIGNALED :: "wstatus \<Rightarrow> bool" where
  "WIFSIGNALED s = (case s of W_Signaled c \<Rightarrow> True | _ \<Rightarrow> False)"

text \<open>The \<^verbatim>\<open>do ... while\<close> around \<^verbatim>\<open>waitpid\<close>: \<open>True\<close> when the loop ends, \<open>False\<close> when
  \<^verbatim>\<open>waitpid\<close> blocks for ever.\<close>

fun wait_loop :: "wstatus list \<Rightarrow> bool" where
  "wait_loop [] = False"
| "wait_loop (status # later) =
     (if \<not> WIFEXITED status \<and> \<not> WIFSIGNALED status then wait_loop later else True)"

definition tash_launch :: "os \<Rightarrow> argv \<Rightarrow> world \<Rightarrow> int result" where
  "tash_launch os args w =
     (case os_fork os of
        Fork_Child \<Rightarrow>
          (case os_execvp os (av_toks args) of
             None \<Rightarrow> Exec (av_toks args) w
           | Some e \<Rightarrow>
               bind_result (tash_exit EXIT_FAILURE (perror os e ''tash'' w))
                 (\<lambda>r w'. Return 1 w'))
      | Fork_Error e \<Rightarrow> Return 1 (perror os e ''tash'' w)
      | Fork_Parent pid \<Rightarrow> (if wait_loop (os_wait os) then Return 1 w else Blocked w))"


section \<open>Dispatch\<close>

definition colour_yellow :: string where
  "colour_yellow = CHR 0x1B # ''[0;33m''"

text \<open>The \<^verbatim>\<open>for\<close> loop of \<^verbatim>\<open>tash_execute\<close> over the builtin table, from index \<open>i\<close>.\<close>

function tash_execute_loop :: "os \<Rightarrow> argv \<Rightarrow> nat \<Rightarrow> world \<Rightarrow> int result" where
  "tash_execute_loop os args i w =
     (if i < tash_num_builtins then
        (case av_toks args of
           [] \<Rightarrow> UB w
         | arg0 # rest \<Rightarrow>
             if strcmp arg0 (builtin_str ! i) = 0 then (builtin_func ! i) os args w
             else tash_execute_loop os args (i + 1) w)
      else tash_launch os args w)"
  by pat_completeness auto
termination
  by (relation "measure (\<lambda>(os, args, i, w). tash_num_builtins - i)") auto

definition tash_execute :: "os \<Rightarrow> argv \<Rightarrow> world \<Rightarrow> int result" where
  "tash_execute os args w =
     (let w1 = printf colour_yellow w
      in if av_toks args = [] then Return 1 w1
         else tash_execute_loop os args 0 w1)"


section \<open>Reading a line\<close>

definition tash_RL_BUFSIZE :: nat where
  "tash_RL_BUFSIZE = 1024"

definition NUL :: char where
  "NUL = CHR 0x00"

definition alloc_error :: string where
  "alloc_error = ''tash: allocation error'' @ [CHR 0x0A]"

text \<open>\<^verbatim>\<open>getchar\<close>: the next byte of standard input, \<open>None\<close> for \<^verbatim>\<open>EOF\<close>.\<close>

definition getchar :: "world \<Rightarrow> char option \<times> world" where
  "getchar w =
     (case w_stdin w of
        [] \<Rightarrow> (None, w)
      | c # cs \<Rightarrow> (Some c, w\<lparr>w_stdin := cs\<rparr>))"

text \<open>
  A character buffer is the list of its bytes, \<open>None\<close> for the null pointer. Fresh memory
  holds indeterminate bytes; the model fills it with \<open>filler\<close>. \<^verbatim>\<open>realloc\<close> keeps the old
  bytes; with the null pointer it is \<^verbatim>\<open>malloc\<close>.
\<close>

definition filler :: char where
  "filler = CHR 0xAA"

definition malloc :: "os \<Rightarrow> nat \<Rightarrow> string option" where
  "malloc os n = (if os_alloc os n = 0 then None else Some (replicate n filler))"

definition realloc :: "os \<Rightarrow> string option \<Rightarrow> nat \<Rightarrow> string option" where
  "realloc os buffer n =
     (if os_alloc os n = 0 then None
      else (case buffer of
              None \<Rightarrow> Some (replicate n filler)
            | Some b \<Rightarrow> Some (take n b @ replicate (n - length b) filler)))"

text \<open>The string a \<^verbatim>\<open>char *\<close> points to: the bytes before the first \<open>NUL\<close>.\<close>

definition c_string :: "string \<Rightarrow> string" where
  "c_string b = takeWhile (\<lambda>c. c \<noteq> NUL) b"

text \<open>
  The \<^verbatim>\<open>if\<close>/\<^verbatim>\<open>else if\<close>/\<^verbatim>\<open>else\<close> on the character read. \<open>Inl\<close>: the function returns this
  line. \<open>Inr\<close>: control goes on to \<^verbatim>\<open>position++\<close> with this buffer. At \<^verbatim>\<open>EOF\<close> the code calls
  \<^verbatim>\<open>tash_exit(EXIT_SUCCESS)\<close> and goes on. A store through the null pointer or past the
  end of the buffer is undefined.
\<close>

definition read_store ::
  "string option \<Rightarrow> nat \<Rightarrow> char option \<Rightarrow> world \<Rightarrow> (string + string option) result" where
  "read_store buffer position c w =
     (case c of
        None \<Rightarrow> bind_result (tash_exit EXIT_SUCCESS w) (\<lambda>r w'. Return (Inr buffer) w')
      | Some ch \<Rightarrow>
          if ch = CHR 0x0A then
            (case buffer of
               None \<Rightarrow> UB w
             | Some b \<Rightarrow>
                 if position < length b then Return (Inl (c_string (b[position := NUL]))) w
                 else UB w)
          else
            (case buffer of
               None \<Rightarrow> UB w
             | Some b \<Rightarrow>
                 if position < length b then Return (Inr (Some (b[position := ch]))) w
                 else UB w))"

text \<open>The \<^verbatim>\<open>if (position >= bufsize)\<close> after \<^verbatim>\<open>position++\<close>: the buffer and the capacity
  after it. \<^verbatim>\<open>bufsize\<close> is an \<^verbatim>\<open>int\<close>: the addition must stay within \<open>INT_MAX\<close>.\<close>

definition read_grow ::
  "os \<Rightarrow> string option \<Rightarrow> nat \<Rightarrow> nat \<Rightarrow> world \<Rightarrow> (string option \<times> nat) result" where
  "read_grow os buffer position bufsize w =
     (if position \<ge> bufsize then
        (if bufsize + tash_RL_BUFSIZE > INT_MAX then UB w
         else
           let bufsize1 = bufsize + tash_RL_BUFSIZE;
               buffer1 = realloc os buffer bufsize1
           in if buffer1 = None then
                bind_result (tash_exit EXIT_FAILURE (fprintf_stderr alloc_error w))
                  (\<lambda>r w'. Return (buffer1, bufsize1) w')
              else Return (buffer1, bufsize1) w)
      else Return (buffer, bufsize) w)"

text \<open>The \<^verbatim>\<open>while (1)\<close> of \<^verbatim>\<open>tash_read_line\<close>. \<^verbatim>\<open>position\<close> is an \<^verbatim>\<open>int\<close>: \<^verbatim>\<open>position++\<close> at
  \<open>INT_MAX\<close> is undefined.\<close>

function read_loop :: "os \<Rightarrow> string option \<Rightarrow> nat \<Rightarrow> nat \<Rightarrow> world \<Rightarrow> string result" where
  "read_loop os buffer position bufsize w =
     (case getchar w of
        (c, w1) \<Rightarrow>
          bind_result (read_store buffer position c w1)
            (\<lambda>s w2.
               case s of
                 Inl line \<Rightarrow> Return line w2
               | Inr buffer1 \<Rightarrow>
                   if position \<ge> INT_MAX then UB w2
                   else
                     bind_result (read_grow os buffer1 (position + 1) bufsize w2)
                       (\<lambda>(buffer2, bufsize2) w3.
                          read_loop os buffer2 (position + 1) bufsize2 w3)))"
  by pat_completeness auto
termination
  by (relation "measure (\<lambda>(os, buffer, position, bufsize, w). INT_MAX - position)") auto

definition tash_read_line :: "os \<Rightarrow> world \<Rightarrow> string result" where
  "tash_read_line os w =
     (let bufsize = tash_RL_BUFSIZE;
          position = 0;
          buffer = malloc os bufsize
      in if buffer = None then
           bind_result (tash_exit EXIT_FAILURE (fprintf_stderr alloc_error w))
             (\<lambda>r w1. read_loop os buffer position bufsize w1)
         else read_loop os buffer position bufsize w)"


section \<open>Splitting a line into tokens\<close>

definition tash_TOK_BUFSIZE :: nat where
  "tash_TOK_BUFSIZE = 64"

definition tash_TOK_DELIM :: string where
  "tash_TOK_DELIM = [CHR 0x20, CHR 0x09, CHR 0x0D, CHR 0x0A, CHR 0x07]"

definition sizeof_ptr :: nat where
  "sizeof_ptr = 8"

text \<open>
  \<^verbatim>\<open>strtok\<close> with the delimiters \<^verbatim>\<open>tash_TOK_DELIM\<close>, on the text at its saved pointer (the
  line itself at the first call). The text ends at the first \<open>NUL\<close>. The function skips the
  delimiters in front; at the end of the text it returns \<^verbatim>\<open>NULL\<close> (\<open>None\<close>); otherwise the
  token runs up to the next delimiter or the end of the text, and the saved pointer moves
  behind that delimiter (which is overwritten by \<open>NUL\<close>) or stays at the end.
\<close>

definition strtok :: "string \<Rightarrow> (string \<times> string) option" where
  "strtok s =
     (case dropWhile (\<lambda>c. c \<in> set tash_TOK_DELIM) s of
        [] \<Rightarrow> None
      | c # cs \<Rightarrow>
          if c = NUL then None
          else
            let token = takeWhile (\<lambda>x. x \<noteq> NUL \<and> x \<notin> set tash_TOK_DELIM) (c # cs)
            in (case dropWhile (\<lambda>x. x \<noteq> NUL \<and> x \<notin> set tash_TOK_DELIM) (c # cs) of
                  [] \<Rightarrow> Some (token, [])
                | e # es \<Rightarrow> if e = NUL then Some (token, e # es) else Some (token, es)))"

text \<open>
  The \<^verbatim>\<open>while (token != NULL)\<close> of \<^verbatim>\<open>tash_split_line\<close>, entered with the text \<^verbatim>\<open>strtok\<close> will
  look at next: \<open>tokens\<close> is the pointer to the array, \<open>stored\<close> the tokens stored so far
  (\<^verbatim>\<open>position\<close> is their number), \<open>bufsize\<close> the capacity. A store through the null pointer
  is undefined. When \<^verbatim>\<open>realloc\<close> fails the old array is freed, \<^verbatim>\<open>tokens\<close> is null and the loop
  goes on.
\<close>

function split_loop ::
  "os \<Rightarrow> addr \<Rightarrow> string list \<Rightarrow> nat \<Rightarrow> string \<Rightarrow> world \<Rightarrow> argv result" where
  "split_loop os tokens stored bufsize rest w =
     (case strtok rest of
        None \<Rightarrow>
          if tokens = 0 then UB w
          else Return \<lparr>av_ptr = tokens, av_toks = stored\<rparr> w
      | Some (token, rest') \<Rightarrow>
          if tokens = 0 then UB w
          else
            let stored1 = stored @ [token];
                position = length stored1
            in if position \<ge> bufsize then
                 (if bufsize + tash_TOK_BUFSIZE > INT_MAX then UB w
                  else
                    let bufsize1 = bufsize + tash_TOK_BUFSIZE;
                        tokens1 = os_alloc os (bufsize1 * sizeof_ptr)
                    in if tokens1 = 0 then
                         bind_result (tash_exit EXIT_FAILURE (fprintf_stderr alloc_error w))
                           (\<lambda>r w1. split_loop os tokens1 stored1 bufsize1 rest' w1)
                       else split_loop os tokens1 stored1 bufsize1 rest' w)
               else split_loop os tokens stored1 bufsize rest' w)"
  by pat_completeness auto


lemma NUL_not_delim: "NUL \<notin> set tash_TOK_DELIM"
  by (simp add: NUL_def tash_TOK_DELIM_def)

lemma strtok_Nil: "strtok [] = None"
  by (simp add: strtok_def)

lemma strtok_NUL: "strtok (NUL # cs) = None"
  by (simp add: strtok_def NUL_not_delim)

lemma strtok_delim: "c \<in> set tash_TOK_DELIM \<Longrightarrow> strtok (c # cs) = strtok cs"
  by (simp add: strtok_def)

lemma strtok_start:
  "c \<notin> set tash_TOK_DELIM \<Longrightarrow> c \<noteq> NUL \<Longrightarrow>
   strtok (c # cs) =
     Some (c # takeWhile (\<lambda>x. x \<noteq> NUL \<and> x \<notin> set tash_TOK_DELIM) cs,
           (case dropWhile (\<lambda>x. x \<noteq> NUL \<and> x \<notin> set tash_TOK_DELIM) cs of
              [] \<Rightarrow> []
            | e # es \<Rightarrow> if e = NUL then e # es else es))"
  by (cases "dropWhile (\<lambda>x. x \<noteq> NUL \<and> x \<notin> set tash_TOK_DELIM) cs")
     (simp_all add: strtok_def Let_def del: dropWhile_eq_Nil_conv)

lemma strtok_shorter: "strtok s = Some (t, s') \<Longrightarrow> length s' < length s"
proof (induction s)
  case Nil
  then show ?case by (simp add: strtok_Nil)
next
  case (Cons c cs)
  show ?case
  proof (cases "c \<in> set tash_TOK_DELIM")
    case True
    with Cons show ?thesis by (simp add: strtok_delim)
  next
    case False
    show ?thesis
    proof (cases "c = NUL")
      case True
      with Cons.prems show ?thesis by (simp add: strtok_NUL)
    next
      case nn: False
      let ?T = "\<lambda>x. x \<noteq> NUL \<and> x \<notin> set tash_TOK_DELIM"
      have "length (dropWhile ?T cs) \<le> length cs" by (rule length_dropWhile_le)
      moreover have "s' = (case dropWhile ?T cs of [] \<Rightarrow> [] | e # es \<Rightarrow> if e = NUL then e # es else es)"
        using Cons.prems False nn by (simp add: strtok_start)
      then have "length s' \<le> length (dropWhile ?T cs)"
        by (simp split: list.split)
      ultimately show ?thesis by simp
    qed
  qed
qed

termination split_loop
  by (relation "measure (\<lambda>(os, tokens, stored, bufsize, rest, w). length rest)")
     (auto dest: strtok_shorter)


definition tash_split_line :: "os \<Rightarrow> string \<Rightarrow> world \<Rightarrow> argv result" where
  "tash_split_line os line w =
     (let bufsize = tash_TOK_BUFSIZE;
          tokens = os_alloc os (bufsize * sizeof_ptr)
      in if tokens = 0 then
           bind_result (tash_exit EXIT_FAILURE (fprintf_stderr alloc_error w))
             (\<lambda>r w1. split_loop os tokens [] bufsize line w1)
         else split_loop os tokens [] bufsize line w)"

declare split_loop.simps [simp del] read_loop.simps [simp del] tash_execute_loop.simps [simp del]


section \<open>The interaction loop\<close>

text \<open>
  One pass of the loop reads a line, splits it and dispatches it; the loop goes on while the
  status is not \<open>0\<close>. A line that is returned has taken at least its newline from standard
  input, and the tokenizer and the dispatcher read nothing from it, so the loop comes to an
  end of the input at the latest.
\<close>

lemma read_store_stdin: "read_store buffer position c w = Return s w' \<Longrightarrow> w_stdin w' = w_stdin w"
  by (auto simp: read_store_def tash_exit_def split: option.splits if_splits)

lemma read_grow_stdin: "read_grow os buffer position bufsize w = Return s w' \<Longrightarrow> w_stdin w' = w_stdin w"
  by (auto simp: read_grow_def tash_exit_def fprintf_stderr_def Let_def split: option.splits if_splits)

lemma getchar_stdin: "getchar w = (c, w1) \<Longrightarrow> length (w_stdin w1) \<le> length (w_stdin w)"
  by (auto simp: getchar_def split: list.splits)

lemma getchar_Some_stdin: "getchar w = (Some c, w1) \<Longrightarrow> length (w_stdin w1) < length (w_stdin w)"
  by (auto simp: getchar_def split: list.splits)

lemma read_store_Inl: "read_store buffer position c w = Return (Inl l) w' \<Longrightarrow> c \<noteq> None"
  by (auto simp: read_store_def tash_exit_def split: option.splits if_splits)

lemma bind_result_Return:
  "bind_result r f = Return v w \<Longrightarrow> \<exists>u w1. r = Return u w1 \<and> f u w1 = Return v w"
  by (cases r) auto

lemma read_loop_le:
  "read_loop os buffer position bufsize w = Return line w' \<Longrightarrow> length (w_stdin w') < length (w_stdin w)"
proof (induction os buffer position bufsize w rule: read_loop.induct)
  case (1 os buffer position bufsize w)
  obtain c w1 where g: "getchar w = (c, w1)" by (cases "getchar w")
  from "1.prems" g obtain s w2 where
    st: "read_store buffer position c w1 = Return s w2" and
    k: "(case s of
           Inl line \<Rightarrow> Return line w2
         | Inr buffer1 \<Rightarrow>
             if position \<ge> INT_MAX then UB w2
             else bind_result (read_grow os buffer1 (position + 1) bufsize w2)
                    (\<lambda>(buffer2, bufsize2) w3. read_loop os buffer2 (position + 1) bufsize2 w3))
         = Return line w'"
    by (subst (asm) read_loop.simps) (auto dest!: bind_result_Return)
  have e2: "w_stdin w2 = w_stdin w1" using st by (rule read_store_stdin)
  show ?case
  proof (cases s)
    case (Inl l)
    with k have "w' = w2" by simp
    moreover from st Inl have "c \<noteq> None" by (auto dest: read_store_Inl)
    ultimately show ?thesis using g e2 by (auto dest: getchar_Some_stdin)
  next
    case (Inr buffer1)
    with k have np: "\<not> position \<ge> INT_MAX" by (auto split: if_splits)
    with k Inr obtain buffer2 bufsize2 w3 where
      gr: "read_grow os buffer1 (position + 1) bufsize w2 = Return (buffer2, bufsize2) w3" and
      rl: "read_loop os buffer2 (position + 1) bufsize2 w3 = Return line w'"
      by (auto dest!: bind_result_Return)
    have "length (w_stdin w') < length (w_stdin w3)"
      using "1.IH"[OF g[symmetric] st Inr np gr _ rl] by simp
    moreover have "w_stdin w3 = w_stdin w2" using gr by (rule read_grow_stdin)
    ultimately show ?thesis using e2 getchar_stdin[OF g] by simp
  qed
qed


lemma tash_read_line_consumes:
  "tash_read_line os w = Return line w' \<Longrightarrow> length (w_stdin w') < length (w_stdin w)"
  by (auto simp: tash_read_line_def Let_def tash_exit_def fprintf_stderr_def
      split: if_splits dest!: read_loop_le)


lemma split_loop_None:
  "strtok rest = None \<Longrightarrow>
   split_loop os tokens stored bufsize rest w =
     (if tokens = 0 then UB w else Return \<lparr>av_ptr = tokens, av_toks = stored\<rparr> w)"
  by (subst split_loop.simps) simp

lemma split_loop_Some:
  "strtok rest = Some (token, rest') \<Longrightarrow>
   split_loop os tokens stored bufsize rest w =
     (if tokens = 0 then UB w
      else if bufsize \<le> Suc (length stored) then
        (if INT_MAX < bufsize + tash_TOK_BUFSIZE then UB w
         else if os_alloc os ((bufsize + tash_TOK_BUFSIZE) * sizeof_ptr) = 0 then
           split_loop os 0 (stored @ [token]) (bufsize + tash_TOK_BUFSIZE) rest'
             (fprintf_stderr alloc_error w)
         else
           split_loop os (os_alloc os ((bufsize + tash_TOK_BUFSIZE) * sizeof_ptr))
             (stored @ [token]) (bufsize + tash_TOK_BUFSIZE) rest' w)
      else split_loop os tokens (stored @ [token]) bufsize rest' w)"
  by (subst split_loop.simps) (simp add: Let_def tash_exit_def)

lemma split_loop_stdin:
  "split_loop os tokens stored bufsize rest w = Return a w' \<Longrightarrow> w_stdin w' = w_stdin w"
proof (induction rest arbitrary: tokens stored bufsize w rule: length_induct)
  case (1 rest)
  show ?case
  proof (cases "strtok rest")
    case None
    with "1.prems" show ?thesis by (auto simp: split_loop_None split: if_splits)
  next
    case (Some p)
    obtain token rest' where p: "strtok rest = Some (token, rest')"
      using Some by (cases p) simp
    have shorter: "length rest' < length rest" using p by (rule strtok_shorter)
    have IH: "\<And>tokens stored bufsize w. split_loop os tokens stored bufsize rest' w = Return a w'
        \<Longrightarrow> w_stdin w' = w_stdin w"
      using "1.IH" shorter by blast
    from "1.prems" show ?thesis
      unfolding split_loop_Some[OF p]
      by (auto split: if_splits dest!: IH simp: fprintf_stderr_def)
  qed
qed

lemma tash_split_line_stdin:
  "tash_split_line os line w = Return a w' \<Longrightarrow> w_stdin w' = w_stdin w"
  by (auto simp: tash_split_line_def Let_def tash_exit_def fprintf_stderr_def
      split: if_splits dest!: split_loop_stdin)

lemma cd_stdin: "cd os a w = Return s w' \<Longrightarrow> w_stdin w' = w_stdin w"
  by (auto simp: cd_def perror_def fprintf_stderr_def split: list.splits sum.splits)

lemma fold_printf_stdin: "w_stdin (fold (\<lambda>i. printf (f i)) xs w) = w_stdin w"
  by (induction xs arbitrary: w) (auto simp: printf_def)

lemma help_stdin: "help_cmd os a w = Return s w' \<Longrightarrow> w_stdin w' = w_stdin w"
  by (auto simp: help_cmd_def Let_def fold_printf_stdin printf_def)

lemma launch_stdin: "tash_launch os a w = Return s w' \<Longrightarrow> w_stdin w' = w_stdin w"
  by (auto simp: tash_launch_def perror_def fprintf_stderr_def tash_exit_def
      split: fork_ret.splits option.splits if_splits)

lemma builtin_func_stdin:
  "i < tash_num_builtins \<Longrightarrow> (builtin_func ! i) os a w = Return s w' \<Longrightarrow> w_stdin w' = w_stdin w"
  by (auto simp: tash_num_builtins_def builtin_str_def builtin_func_def less_Suc_eq
      exit_called_with_args_def libc_exit_def dest: cd_stdin help_stdin)

lemma tash_execute_loop_stdin:
  "tash_execute_loop os a i w = Return s w' \<Longrightarrow> w_stdin w' = w_stdin w"
proof (induction os a i w rule: tash_execute_loop.induct)
  case (1 os args i w)
  from "1.prems" show ?case
    apply (subst (asm) tash_execute_loop.simps)
    apply (auto split: if_splits list.splits dest: launch_stdin builtin_func_stdin "1.IH")
    done
qed

lemma tash_execute_stdin:
  "tash_execute os a w = Return s w' \<Longrightarrow> w_stdin w' = w_stdin w"
  by (auto simp: tash_execute_def Let_def printf_def split: if_splits dest!: tash_execute_loop_stdin)

definition colour_magenta :: string where
  "colour_magenta = CHR 0x1B # ''[0;35m''"

definition colour_red :: string where
  "colour_red = CHR 0x1B # ''[0;31m''"

definition colour_cyan :: string where
  "colour_cyan = CHR 0x1B # ''[0;36m''"

function tash_loop :: "os \<Rightarrow> world \<Rightarrow> unit result" where
  "tash_loop os w =
     (let w1 = printf colour_magenta w;
          w2 = printf ''tash'' w1;
          w3 = printf colour_red w2;
          w4 = printf ''> '' w3;
          w5 = printf colour_cyan w4
      in bind_result (tash_read_line os w5)
           (\<lambda>line w6.
              bind_result (tash_split_line os line w6)
                (\<lambda>args w7.
                   bind_result (tash_execute os args (printf colour_yellow w7))
                     (\<lambda>status w8.
                        if status \<noteq> 0 then tash_loop os w8 else Return () w8))))"
  by pat_completeness auto
termination
proof (relation "measure (\<lambda>(os, w). length (w_stdin w))", goal_cases)
  case 1
  show ?case by simp
next
  case (2 os w w1 w2 w3 w4 w5 line w6 args w7 status w8)
  have "w_stdin w8 = w_stdin w7" using 2 by (auto dest!: tash_execute_stdin simp: printf_def)
  moreover have "w_stdin w7 = w_stdin w6" using 2 by (auto dest!: tash_split_line_stdin)
  moreover have "length (w_stdin w6) < length (w_stdin w5)" using 2 by (auto dest!: tash_read_line_consumes)
  moreover have "w_stdin w5 = w_stdin w" using 2 by (simp add: printf_def)
  ultimately show ?case by simp
qed

definition main :: "os \<Rightarrow> world \<Rightarrow> unit result" where
  "main os w = bind_result (tash_loop os w) (\<lambda>r w'. Exit EXIT_SUCCESS w')"


section \<open>The notions of the specification\<close>

text \<open>
  These definitions follow the words of the specification, not the code. A token is
  ``exactly a maximal run of non-delimiter characters'': the characters of the line from
  position \<open>i\<close> up to position \<open>j\<close> (excluded) are a maximal run when there is at least one,
  none of them is a delimiter, the character before them (if any) is a delimiter and so is
  the character behind them (if any). The tokens of a line are its maximal runs, from left
  to right.
\<close>

definition is_run :: "string \<Rightarrow> nat \<Rightarrow> nat \<Rightarrow> bool" where
  "is_run line i j \<longleftrightarrow>
     i < j \<and> j \<le> length line
     \<and> (\<forall>k\<in>{i..<j}. line ! k \<notin> set tash_TOK_DELIM)
     \<and> (i = 0 \<or> line ! (i - 1) \<in> set tash_TOK_DELIM)
     \<and> (j = length line \<or> line ! j \<in> set tash_TOK_DELIM)"

definition maximal_runs :: "string \<Rightarrow> string list" where
  "maximal_runs line =
     [take (j - i) (drop i line).
        i \<leftarrow> [0..<length line], j \<leftarrow> [i + 1..<length line + 1], is_run line i j]"

text \<open>``Re-joining a token vector with single spaces''.\<close>

fun join_spaces :: "string list \<Rightarrow> string" where
  "join_spaces [] = []"
| "join_spaces [t] = t"
| "join_spaces (t # u # ts) = t @ CHR 0x20 # join_spaces (u # ts)"

text \<open>The line of the specification's example: \<^verbatim>\<open>"echo  a   b\\tc\\n"\<close>.\<close>

definition example_line :: string where
  "example_line = ''echo  a   b'' @ [CHR 0x09] @ ''c'' @ [CHR 0x0A]"


section \<open>Concrete environments\<close>

text \<open>An environment and a world to run the functions in: the process is the parent of a
  fork whose child is stopped once and then exits, \<^verbatim>\<open>chdir\<close> knows the directory \<^verbatim>\<open>/tmp\<close> only,
  \<^verbatim>\<open>execvp\<close> finds no program, every allocation succeeds; standard input is at its end.\<close>

definition os0 :: os where
  "os0 = \<lparr>os_chdir = (\<lambda>cwd path. if path = ''/tmp'' then Inr ''/tmp'' else Inl 2),
          os_fork = Fork_Parent 4242,
          os_execvp = (\<lambda>args. Some 2),
          os_wait = [W_Stopped 19, W_Exited 0],
          os_strerror = (\<lambda>e. ''No such file or directory''),
          os_alloc = (\<lambda>n. 0x55812A3B46B0)\<rparr>"

definition w0 :: world where
  "w0 = \<lparr>w_stdin = [], w_stdout = [], w_stderr = [], w_cwd = ''/home''\<rparr>"

definition os_nomem :: os where
  "os_nomem = os0\<lparr>os_alloc := (\<lambda>n. 0)\<rparr>"

definition os_child :: os where
  "os_child = os0\<lparr>os_fork := Fork_Child\<rparr>"

definition w_ls :: world where
  "w_ls = w0\<lparr>w_stdin := ''ls'' @ [CHR 0x0A]\<rparr>"


text \<open>Standard input holds the line \<^verbatim>\<open>exit\<close>.\<close>

definition w_exit :: world where
  "w_exit = w0\<lparr>w_stdin := ''exit'' @ [CHR 0x0A]\<rparr>"

text \<open>What the loop prints before it reads a line.\<close>

definition prompt :: string where
  "prompt = colour_magenta @ ''tash'' @ colour_red @ ''> '' @ colour_cyan"


section \<open>Auxiliary notions for the proofs\<close>

text \<open>All the tokens \<^verbatim>\<open>strtok\<close> hands out, one call after the other, until it returns
  \<^verbatim>\<open>NULL\<close>.\<close>

function strtok_all :: "string \<Rightarrow> string list" where
  "strtok_all s = (case strtok s of None \<Rightarrow> [] | Some (token, rest) \<Rightarrow> token # strtok_all rest)"
  by pat_completeness auto
termination strtok_all
  by (relation "measure length") (auto dest: strtok_shorter)

declare strtok_all.simps [simp del]

text \<open>The positions where a run of non-delimiters begins; \<open>b\<close> tells whether a run may begin
  at position \<open>0\<close> (the character in front of the line, if any, is a delimiter).\<close>

definition run_starts :: "bool \<Rightarrow> string \<Rightarrow> nat list" where
  "run_starts b line =
     [i \<leftarrow> [0..<length line].
        line ! i \<notin> set tash_TOK_DELIM \<and> (if i = 0 then b else line ! (i - 1) \<in> set tash_TOK_DELIM)]"

abbreviation nd :: "char \<Rightarrow> bool" where
  "nd \<equiv> (\<lambda>c. c \<notin> set tash_TOK_DELIM)"


section \<open>Facts about dispatch and the reader\<close>

lemma strcmp_eq: "strcmp a b = 0 \<longleftrightarrow> a = b"
  by (induction a b rule: strcmp.induct) auto

lemma tash_execute_loop_3: "tash_execute_loop os args (Suc (Suc (Suc 0))) w = tash_launch os args w"
  by (subst tash_execute_loop.simps) (simp add: tash_num_builtins_def builtin_str_def)

lemma tash_execute_Cons:
  "av_toks args = arg0 # rest \<Longrightarrow>
   tash_execute os args w =
     (if arg0 = ''cd'' then cd os args (printf colour_yellow w)
      else if arg0 = ''help'' then help_cmd os args (printf colour_yellow w)
      else if arg0 = ''exit'' then exit_called_with_args os args (printf colour_yellow w)
      else tash_launch os args (printf colour_yellow w))"
proof -
  assume a: "av_toks args = arg0 # rest"
  have 2: "tash_execute_loop os args (Suc (Suc 0)) w1 =
     (if arg0 = ''exit'' then exit_called_with_args os args w1 else tash_launch os args w1)" for w1
    using a tash_execute_loop_3[of os args w1]
    by (subst tash_execute_loop.simps)
       (simp add: tash_num_builtins_def builtin_str_def builtin_func_def strcmp_eq)
  have 1: "tash_execute_loop os args (Suc 0) w1 =
     (if arg0 = ''help'' then help_cmd os args w1 else tash_execute_loop os args (Suc (Suc 0)) w1)" for w1
    using a
    by (subst tash_execute_loop.simps)
       (simp add: tash_num_builtins_def builtin_str_def builtin_func_def strcmp_eq)
  have 0: "tash_execute_loop os args 0 w1 =
     (if arg0 = ''cd'' then cd os args w1 else tash_execute_loop os args (Suc 0) w1)" for w1
    using a
    by (subst tash_execute_loop.simps)
       (simp add: tash_num_builtins_def builtin_str_def builtin_func_def strcmp_eq)
  show ?thesis using a by (simp add: tash_execute_def 0 1 2)
qed

lemma tash_execute_Nil:
  "av_toks args = [] \<Longrightarrow> tash_execute os args w = Return 1 (printf colour_yellow w)"
  by (simp add: tash_execute_def)

lemma help_Return: "\<exists>w'. help_cmd os args w = Return 1 w'"
  by (simp add: help_cmd_def Let_def)

lemma cd_Return: "av_toks args \<noteq> [] \<Longrightarrow> \<exists>w'. cd os args w = Return 1 w'"
  by (auto simp: cd_def split: list.splits sum.splits)

lemma launch_cases:
  "(\<exists>w'. tash_launch os args w = Return 1 w')
   \<or> (tash_launch os args w = Exec (av_toks args) w
        \<and> os_fork os = Fork_Child \<and> os_execvp os (av_toks args) = None)
   \<or> (tash_launch os args w = Blocked w
        \<and> (\<exists>pid. os_fork os = Fork_Parent pid) \<and> \<not> wait_loop (os_wait os))"
  by (auto simp: tash_launch_def tash_exit_def split: fork_ret.splits option.splits)

lemma read_grow_cases:
  "(\<exists>b n w'. read_grow os buffer position bufsize w = Return (b, n) w' \<and> w_stdin w' = w_stdin w)
   \<or> read_grow os buffer position bufsize w = UB w"
  by (simp add: read_grow_def Let_def tash_exit_def fprintf_stderr_def)

lemma read_loop_EOF_unfold:
  "w_stdin w = [] \<Longrightarrow>
   read_loop os buffer position bufsize w =
     (if position \<ge> INT_MAX then UB w
      else bind_result (read_grow os buffer (position + 1) bufsize w)
             (\<lambda>(buffer2, bufsize2) w3. read_loop os buffer2 (position + 1) bufsize2 w3))"
  by (subst read_loop.simps) (simp add: getchar_def read_store_def tash_exit_def)

lemma read_loop_EOF:
  "w_stdin w = [] \<Longrightarrow> \<exists>w'. read_loop os buffer position bufsize w = UB w'"
proof (induction "INT_MAX - position" arbitrary: position buffer bufsize w rule: less_induct)
  case less
  show ?case
  proof (cases "position \<ge> INT_MAX")
    case True
    then show ?thesis using less.prems by (simp add: read_loop_EOF_unfold)
  next
    case False
    from read_grow_cases[of os buffer "position + 1" bufsize w]
    show ?thesis
    proof
      assume "\<exists>b n w'. read_grow os buffer (position + 1) bufsize w = Return (b, n) w'
                \<and> w_stdin w' = w_stdin w"
      then obtain b n w1 where
        g: "read_grow os buffer (position + 1) bufsize w = Return (b, n) w1" and
        e: "w_stdin w1 = []"
        using less.prems by auto
      have "\<exists>w'. read_loop os b (position + 1) n w1 = UB w'"
        using False e by (intro less.hyps) auto
      then show ?thesis using False g less.prems by (simp add: read_loop_EOF_unfold)
    next
      assume "read_grow os buffer (position + 1) bufsize w = UB w"
      then show ?thesis using False less.prems by (simp add: read_loop_EOF_unfold)
    qed
  qed
qed

lemma tash_read_line_EOF:
  "w_stdin w = [] \<Longrightarrow> \<exists>w'. tash_read_line os w = UB w'"
  by (simp add: tash_read_line_def Let_def tash_exit_def fprintf_stderr_def read_loop_EOF)

lemma tash_loop_EOF:
  "w_stdin w = [] \<Longrightarrow> \<exists>w'. tash_loop os w = UB w'"
proof -
  assume a: "w_stdin w = []"
  let ?w5 = "printf colour_cyan (printf ''> '' (printf colour_red (printf ''tash''
               (printf colour_magenta w))))"
  have "w_stdin ?w5 = []" using a by (simp add: printf_def)
  then obtain w' where "tash_read_line os ?w5 = UB w'"
    using tash_read_line_EOF by blast
  then show ?thesis by (subst tash_loop.simps) (simp add: Let_def)
qed

lemma main_EOF:
  "w_stdin w = [] \<Longrightarrow> \<exists>w'. main os w = UB w'"
  using tash_loop_EOF[of w os] by (auto simp: main_def)


section \<open>Facts about the tokenizer\<close>

lemma strtok_all_Nil: "strtok_all [] = []"
  by (subst strtok_all.simps) (simp add: strtok_Nil)

lemma strtok_all_NUL: "strtok_all (NUL # cs) = []"
  by (subst strtok_all.simps) (simp add: strtok_NUL)

lemma strtok_all_delim: "c \<in> set tash_TOK_DELIM \<Longrightarrow> strtok_all (c # cs) = strtok_all cs"
  by (subst strtok_all.simps, subst (2) strtok_all.simps) (simp add: strtok_delim)

lemma strtok_all_start:
  assumes "c \<notin> set tash_TOK_DELIM" and "NUL \<notin> set (c # cs)"
  shows "strtok_all (c # cs) = (c # takeWhile nd cs) # strtok_all (dropWhile nd cs)"
proof -
  let ?T = "\<lambda>x. x \<noteq> NUL \<and> x \<notin> set tash_TOK_DELIM"
  have tw: "takeWhile ?T cs = takeWhile nd cs"
    using assms(2) by (intro takeWhile_cong) auto
  have dw: "dropWhile ?T cs = dropWhile nd cs"
    using assms(2) by (intro dropWhile_cong) auto
  have c: "c \<noteq> NUL" using assms(2) by auto
  have st: "strtok (c # cs) =
     Some (c # takeWhile nd cs,
           (case dropWhile nd cs of [] \<Rightarrow> [] | e # es \<Rightarrow> if e = NUL then e # es else es))"
    using strtok_start[OF assms(1) c, of cs] by (simp only: tw dw)
  have "strtok_all (case dropWhile nd cs of [] \<Rightarrow> [] | e # es \<Rightarrow> if e = NUL then e # es else es)
        = strtok_all (dropWhile nd cs)"
  proof (cases "dropWhile nd cs")
    case Nil
    then show ?thesis by (simp only: list.case)
  next
    case (Cons e es)
    then have "\<not> nd e" using hd_dropWhile[of nd cs] by auto
    then have "e \<in> set tash_TOK_DELIM" by simp
    then show ?thesis using Cons NUL_not_delim by (auto simp: strtok_all_delim)
  qed
  then show ?thesis by (subst strtok_all.simps) (simp add: st)
qed

lemma run_starts_Nil: "run_starts b [] = []"
  by (simp add: run_starts_def)

lemma run_starts_Cons:
  "run_starts b (c # cs) =
     (if c \<notin> set tash_TOK_DELIM \<and> b then [0] else []) @
     map Suc (run_starts (c \<in> set tash_TOK_DELIM) cs)"
proof -
  have u: "[0..<length (c # cs)] = 0 # map Suc [0..<length cs]"
    by (simp add: upt_conv_Cons map_Suc_upt del: upt_Suc)
  have "(if i = 0 then c \<in> set tash_TOK_DELIM else cs ! (i - 1) \<in> set tash_TOK_DELIM)
        = ((c # cs) ! i \<in> set tash_TOK_DELIM)" for i
    by (cases i) auto
  then show ?thesis
    unfolding run_starts_def u by (simp add: filter_map comp_def)
qed

lemma runs_of_starts:
  "NUL \<notin> set line \<Longrightarrow>
   map (\<lambda>i. takeWhile nd (drop i line)) (run_starts b line) =
     (if b then strtok_all line else strtok_all (dropWhile nd line))"
proof (induction line arbitrary: b)
  case Nil
  then show ?case by (simp add: run_starts_Nil strtok_all_Nil)
next
  case (Cons c cs)
  then have nn: "NUL \<notin> set cs" by simp
  show ?case
  proof (cases "c \<in> set tash_TOK_DELIM")
    case True
    then show ?thesis
      using Cons.IH[OF nn, of True]
      by (simp add: run_starts_Cons comp_def strtok_all_delim)
  next
    case False
    then show ?thesis
      using Cons.IH[OF nn, of False] strtok_all_start[OF False Cons.prems]
      by (simp add: run_starts_Cons comp_def)
  qed
qed

lemma is_run_iff:
  assumes "i < length line"
  shows "is_run line i j \<longleftrightarrow>
      (line ! i \<notin> set tash_TOK_DELIM \<and> (if i = 0 then True else line ! (i - 1) \<in> set tash_TOK_DELIM))
      \<and> j = i + length (takeWhile nd (drop i line))"
proof
  assume r: "is_run line i j"
  then have ij: "i < j" "j \<le> length line"
    and body: "\<forall>k\<in>{i..<j}. line ! k \<notin> set tash_TOK_DELIM"
    and left: "i = 0 \<or> line ! (i - 1) \<in> set tash_TOK_DELIM"
    and right: "j = length line \<or> line ! j \<in> set tash_TOK_DELIM"
    by (auto simp: is_run_def)
  have split: "drop i line = take (j - i) (drop i line) @ drop j line"
    using ij by (metis append_take_drop_id drop_drop le_add_diff_inverse2 less_imp_le_nat)
  have all: "\<And>x. x \<in> set (take (j - i) (drop i line)) \<Longrightarrow> nd x"
  proof -
    fix x assume "x \<in> set (take (j - i) (drop i line))"
    then obtain k where k: "k < j - i" "x = take (j - i) (drop i line) ! k"
      using ij by (auto simp: in_set_conv_nth)
    then have "x = line ! (i + k)" using ij by simp
    moreover have "i + k \<in> {i..<j}" using k by auto
    ultimately show "nd x" using body by blast
  qed
  have stop: "takeWhile nd (drop j line) = []"
  proof (cases "j = length line")
    case True
    then show ?thesis by simp
  next
    case False
    with right ij have "\<not> nd (line ! j)" "j < length line" by auto
    then show ?thesis by (simp add: takeWhile_eq_Nil_iff hd_drop_conv_nth)
  qed
  have "takeWhile nd (drop i line) = take (j - i) (drop i line)"
    by (subst split) (simp add: takeWhile_append2 all stop)
  then have "length (takeWhile nd (drop i line)) = j - i" using ij by simp
  then show "(line ! i \<notin> set tash_TOK_DELIM \<and> (if i = 0 then True else line ! (i - 1) \<in> set tash_TOK_DELIM))
      \<and> j = i + length (takeWhile nd (drop i line))"
    using ij body left by auto
next
  let ?m = "length (takeWhile nd (drop i line))"
  assume a: "(line ! i \<notin> set tash_TOK_DELIM \<and> (if i = 0 then True else line ! (i - 1) \<in> set tash_TOK_DELIM))
      \<and> j = i + ?m"
  have d: "drop i line = line ! i # drop (Suc i) line"
    using assms by (simp add: Cons_nth_drop_Suc)
  have m0: "0 < ?m" using a by (subst d) simp
  have mle: "?m \<le> length line - i"
    using length_takeWhile_le[of nd "drop i line"] by simp
  have body: "\<forall>k\<in>{i..<j}. line ! k \<notin> set tash_TOK_DELIM"
  proof
    fix k assume k: "k \<in> {i..<j}"
    then have lt: "k - i < ?m" using a by auto
    then have "takeWhile nd (drop i line) ! (k - i) = drop i line ! (k - i)"
      by (rule takeWhile_nth)
    moreover have "takeWhile nd (drop i line) ! (k - i) \<in> set (takeWhile nd (drop i line))"
      using lt by (rule nth_mem)
    then have "nd (takeWhile nd (drop i line) ! (k - i))"
      by (auto dest: set_takeWhileD)
    moreover have "drop i line ! (k - i) = line ! k"
      using k assms by simp
    ultimately show "line ! k \<notin> set tash_TOK_DELIM" by simp
  qed
  have right: "j = length line \<or> line ! j \<in> set tash_TOK_DELIM"
  proof (cases "j = length line")
    case True
    then show ?thesis by simp
  next
    case False
    then have "?m < length line - i" using a mle assms by arith
    then have "?m < length (drop i line)" by simp
    then have "\<not> nd (drop i line ! ?m)" by (rule nth_length_takeWhile)
    moreover have "drop i line ! ?m = line ! j" using a mle assms by simp
    ultimately show ?thesis by simp
  qed
  show "is_run line i j"
    unfolding is_run_def using a m0 mle assms body right by (auto split: if_splits)
qed

lemma filter_eq_upt: "filter (\<lambda>j. j = x) [a..<b] = (if a \<le> x \<and> x < b then [x] else [])"
  by (induction b) auto

lemma runs_at:
  assumes "i < length line"
  shows "map (\<lambda>j. take (j - i) (drop i line)) (filter (is_run line i) [i + 1..<length line + 1]) =
     (if line ! i \<notin> set tash_TOK_DELIM \<and> (if i = 0 then True else line ! (i - 1) \<in> set tash_TOK_DELIM)
      then [takeWhile nd (drop i line)] else [])"
proof -
  let ?S = "line ! i \<notin> set tash_TOK_DELIM \<and> (if i = 0 then True else line ! (i - 1) \<in> set tash_TOK_DELIM)"
  let ?m = "length (takeWhile nd (drop i line))"
  show ?thesis
  proof (cases ?S)
    case False
    then have "filter (is_run line i) [i + 1..<length line + 1] = []"
      using is_run_iff[OF assms] by (auto simp: filter_empty_conv)
    then show ?thesis using False by simp
  next
    case True
    have d: "drop i line = line ! i # drop (Suc i) line"
      using assms by (simp add: Cons_nth_drop_Suc)
    have m0: "0 < ?m" using True by (subst d) simp
    have mle: "?m \<le> length line - i"
      using length_takeWhile_le[of nd "drop i line"] by simp
    have "is_run line i = (\<lambda>j. j = i + ?m)"
      using is_run_iff[OF assms] True by auto
    moreover have "Suc i \<le> i + ?m \<and> i + ?m < Suc (length line)"
      using m0 mle assms by arith
    ultimately have f: "filter (is_run line i) [i + 1..<length line + 1] = [i + ?m]"
      by (simp add: filter_eq_upt del: upt_Suc)
    have t: "take ?m (drop i line) = takeWhile nd (drop i line)"
      by (rule takeWhile_eq_take[symmetric])
    have m: "map (\<lambda>j. take (j - i) (drop i line)) [i + ?m] = [takeWhile nd (drop i line)]"
      using t by simp
    show ?thesis unfolding f m using True by (auto split: if_splits)
  qed
qed

lemma concat_map_if:
  "concat (map (\<lambda>i. if P i then [f i] else []) xs) = map f (filter P xs)"
  by (induction xs) auto

lemma maximal_runs_starts:
  "maximal_runs line = map (\<lambda>i. takeWhile nd (drop i line)) (run_starts True line)"
proof -
  have "maximal_runs line =
     concat (map (\<lambda>i. map (\<lambda>j. take (j - i) (drop i line))
                          (filter (is_run line i) [i + 1..<length line + 1])) [0..<length line])"
    unfolding maximal_runs_def by (simp add: concat_map_if)
  also have "\<dots> = concat (map (\<lambda>i. if line ! i \<notin> set tash_TOK_DELIM \<and>
           (if i = 0 then True else line ! (i - 1) \<in> set tash_TOK_DELIM)
         then [takeWhile nd (drop i line)] else []) [0..<length line])"
  proof (intro arg_cong[where f = concat] map_cong refl)
    fix i assume "i \<in> set [0..<length line]"
    then have "i < length line" by simp
    then show "map (\<lambda>j. take (j - i) (drop i line))
                 (filter (is_run line i) [i + 1..<length line + 1]) =
       (if line ! i \<notin> set tash_TOK_DELIM \<and>
           (if i = 0 then True else line ! (i - 1) \<in> set tash_TOK_DELIM)
        then [takeWhile nd (drop i line)] else [])"
      by (rule runs_at)
  qed
  also have "\<dots> = map (\<lambda>i. takeWhile nd (drop i line)) (run_starts True line)"
    unfolding concat_map_if run_starts_def ..
  finally show ?thesis .
qed

lemma strtok_all_None: "strtok s = None \<Longrightarrow> strtok_all s = []"
  by (subst strtok_all.simps) simp

lemma strtok_all_Some: "strtok s = Some (t, s') \<Longrightarrow> strtok_all s = t # strtok_all s'"
  by (subst strtok_all.simps) simp

lemma strtok_all_count:
  "NUL \<notin> set s \<Longrightarrow> 2 * length (strtok_all s) \<le> length s + 1"
proof (induction s rule: length_induct)
  case (1 s)
  show ?case
  proof (cases s)
    case Nil
    then show ?thesis by (simp add: strtok_all_Nil)
  next
    case (Cons c cs)
    show ?thesis
    proof (cases "c \<in> set tash_TOK_DELIM")
      case True
      have "2 * length (strtok_all cs) \<le> length cs + 1"
        using "1.IH" "1.prems" Cons by simp
      then show ?thesis using True Cons by (simp add: strtok_all_delim)
    next
      case False
      have nn: "NUL \<notin> set (c # cs)" using "1.prems" Cons by simp
      have eq: "strtok_all s = (c # takeWhile nd cs) # strtok_all (dropWhile nd cs)"
        using strtok_all_start[OF False nn] Cons by simp
      show ?thesis
      proof (cases "dropWhile nd cs")
        case Nil
        then show ?thesis using eq Cons by (simp add: strtok_all_Nil del: dropWhile_eq_Nil_conv)
      next
        case d: (Cons e es)
        then have "\<not> nd e" using hd_dropWhile[of nd cs] by auto
        then have e: "e \<in> set tash_TOK_DELIM" by simp
        have "length (e # es) \<le> length cs"
          using length_dropWhile_le[of nd cs] d by simp
        then have l: "length es + 1 \<le> length cs" by simp
        have "set es \<subseteq> set cs" using set_dropWhileD[of _ nd cs] d by auto
        then have "NUL \<notin> set es" using nn by auto
        moreover have "length es < length s" using l Cons by simp
        ultimately have "2 * length (strtok_all es) \<le> length es + 1"
          using "1.IH" by blast
        then show ?thesis using eq d e l Cons by (simp add: strtok_all_delim)
      qed
    qed
  qed
qed

lemma split_loop_all:
  assumes "\<forall>n. os_alloc os n \<noteq> 0" and "tokens \<noteq> 0"
    and "length stored + length (strtok_all rest) + tash_TOK_BUFSIZE \<le> INT_MAX"
  shows "\<exists>p. p \<noteq> 0 \<and> split_loop os tokens stored bufsize rest w =
           Return \<lparr>av_ptr = p, av_toks = stored @ strtok_all rest\<rparr> w"
  using assms(2,3)
proof (induction rest arbitrary: tokens stored bufsize rule: length_induct)
  case (1 rest)
  show ?case
  proof (cases "strtok rest")
    case None
    then show ?thesis using "1.prems" by (simp add: split_loop_None strtok_all_None)
  next
    case (Some p)
    obtain token rest' where st: "strtok rest = Some (token, rest')"
      using Some by (cases p) simp
    have shorter: "length rest' < length rest" using st by (rule strtok_shorter)
    have all: "strtok_all rest = token # strtok_all rest'" using st by (rule strtok_all_Some)
    have bound: "length (stored @ [token]) + length (strtok_all rest') + tash_TOK_BUFSIZE \<le> INT_MAX"
      using "1.prems"(2) all by simp
    have IH: "\<And>tokens bufsize. tokens \<noteq> 0 \<Longrightarrow>
        \<exists>p. p \<noteq> 0 \<and> split_loop os tokens (stored @ [token]) bufsize rest' w =
          Return \<lparr>av_ptr = p, av_toks = (stored @ [token]) @ strtok_all rest'\<rparr> w"
      using "1.IH" shorter bound by blast
    show ?thesis
    proof (cases "bufsize \<le> Suc (length stored)")
      case True
      then have no: "\<not> INT_MAX < bufsize + tash_TOK_BUFSIZE" using bound by simp
      have a: "os_alloc os ((bufsize + tash_TOK_BUFSIZE) * sizeof_ptr) \<noteq> 0"
        using assms(1) by blast
      show ?thesis
        using IH[OF a, of "bufsize + tash_TOK_BUFSIZE"] True no a "1.prems"(1)
        by (simp add: split_loop_Some[OF st] all)
    next
      case False
      then show ?thesis
        using IH[OF "1.prems"(1), of bufsize] "1.prems"(1)
        by (simp add: split_loop_Some[OF st] all)
    qed
  qed
qed

lemma tash_split_line_all:
  assumes "\<forall>n. os_alloc os n \<noteq> 0"
    and "length (strtok_all line) + tash_TOK_BUFSIZE \<le> INT_MAX"
  shows "\<exists>p. p \<noteq> 0 \<and> tash_split_line os line w =
           Return \<lparr>av_ptr = p, av_toks = strtok_all line\<rparr> w"
proof -
  have a: "os_alloc os (tash_TOK_BUFSIZE * sizeof_ptr) \<noteq> 0" using assms(1) by blast
  show ?thesis
    using split_loop_all[OF assms(1) a, of "[]" line tash_TOK_BUFSIZE w] assms(2) a
    by (simp add: tash_split_line_def Let_def)
qed

lemma count_fits:
  assumes "NUL \<notin> set line" and "length line \<le> INT_MAX"
  shows "length (strtok_all line) + tash_TOK_BUFSIZE \<le> INT_MAX"
  using strtok_all_count[OF assms(1)] assms(2)
  by (simp add: INT_MAX_def tash_TOK_BUFSIZE_def)

lemma space_delim: "CHR 0x20 \<in> set tash_TOK_DELIM"
  by (simp add: tash_TOK_DELIM_def)

lemma strtok_all_token:
  assumes "t \<noteq> []" and "\<forall>c\<in>set t. c \<notin> set tash_TOK_DELIM \<and> c \<noteq> NUL"
    and "NUL \<notin> set rest"
  shows "strtok_all t = [t]" and "strtok_all (t @ CHR 0x20 # rest) = t # strtok_all rest"
proof -
  obtain c cs where t: "t = c # cs" using assms(1) by (cases t) auto
  have c: "c \<notin> set tash_TOK_DELIM" using assms(2) t by simp
  have cs: "\<And>x. x \<in> set cs \<Longrightarrow> nd x" using assms(2) t by simp
  have n1: "NUL \<notin> set (c # cs)" using assms(2) t by auto
  have sp: "(CHR 0x20 :: char) \<noteq> NUL" by (simp add: NUL_def)
  have n2: "NUL \<notin> set (c # cs @ CHR 0x20 # rest)" using n1 assms(3) sp by auto
  have "takeWhile nd cs = cs" using cs by (simp add: takeWhile_eq_all_conv)
  moreover have "dropWhile nd cs = []" using cs by simp
  ultimately show "strtok_all t = [t]"
    using strtok_all_start[OF c n1] t by (simp add: strtok_all_Nil del: dropWhile_eq_Nil_conv)
  have "takeWhile nd (cs @ CHR 0x20 # rest) = cs"
    using cs space_delim by (simp add: takeWhile_append2)
  moreover have "dropWhile nd (cs @ CHR 0x20 # rest) = CHR 0x20 # rest"
    using cs space_delim by (simp add: dropWhile_append2)
  ultimately show "strtok_all (t @ CHR 0x20 # rest) = t # strtok_all rest"
    using strtok_all_start[OF c n2] t space_delim by (simp add: strtok_all_delim)
qed

lemma join_spaces_NUL:
  "\<forall>t\<in>set ts. t \<noteq> [] \<and> (\<forall>c\<in>set t. c \<notin> set tash_TOK_DELIM \<and> c \<noteq> NUL) \<Longrightarrow>
   NUL \<notin> set (join_spaces ts)"
  by (induction ts rule: join_spaces.induct) (auto simp: NUL_def)

lemma strtok_all_join:
  "\<forall>t\<in>set ts. t \<noteq> [] \<and> (\<forall>c\<in>set t. c \<notin> set tash_TOK_DELIM \<and> c \<noteq> NUL) \<Longrightarrow>
   strtok_all (join_spaces ts) = ts"
proof (induction ts rule: join_spaces.induct)
  case 1
  then show ?case by (simp add: strtok_all_Nil)
next
  case (2 t)
  then show ?case using strtok_all_token(1)[of t "[]"] by simp
next
  case (3 t u ts)
  have n: "NUL \<notin> set (join_spaces (u # ts))"
    using "3.prems" by (intro join_spaces_NUL) simp
  have "strtok_all (t @ CHR 0x20 # join_spaces (u # ts)) = t # strtok_all (join_spaces (u # ts))"
    using "3.prems" n by (intro strtok_all_token(2)) auto
  then show ?case using 3 by simp
qed

lemma strtok_all_runs: "NUL \<notin> set line \<Longrightarrow> strtok_all line = maximal_runs line"
  using runs_of_starts[of line True] by (simp add: maximal_runs_starts)

lemma strtok_example: "strtok_all example_line = [''echo'', ''a'', ''b'', ''c'']"
  unfolding example_line_def
  by (simp add: strtok_all.simps strtok_def tash_TOK_DELIM_def NUL_def)


lemma os0_alloc: "\<forall>n. os_alloc os0 n \<noteq> 0"
  by (simp add: os0_def)


section \<open>Facts about whole runs\<close>

lemma c_string_NUL: "c_string (xs @ NUL # ys) = c_string xs"
  by (induction xs) (simp_all add: c_string_def)

lemma c_string_id: "NUL \<notin> set xs \<Longrightarrow> c_string xs = xs"
  by (auto simp: c_string_def takeWhile_eq_all_conv)

lemma read_loop_short:
  assumes "CHR 0x0A \<notin> set l" and "position + length l < length b" and "length b = bufsize"
    and "bufsize \<le> INT_MAX" and "w_stdin w = l @ CHR 0x0A # rest"
  shows "read_loop os (Some b) position bufsize w =
           Return (c_string (take position b @ l)) (w\<lparr>w_stdin := rest\<rparr>)"
  using assms
proof (induction l arbitrary: b position w)
  case Nil
  then have g: "getchar w = (Some (CHR 0x0A), w\<lparr>w_stdin := rest\<rparr>)"
    by (simp add: getchar_def)
  have "b[position := NUL] = take position b @ NUL # drop (Suc position) b"
    using Nil.prems by (simp add: upd_conv_take_nth_drop)
  then have "c_string (b[position := NUL]) = c_string (take position b)"
    by (simp add: c_string_NUL)
  then show ?case
    using Nil.prems g by (subst read_loop.simps) (simp add: read_store_def)
next
  case (Cons c cs)
  let ?w1 = "w\<lparr>w_stdin := cs @ CHR 0x0A # rest\<rparr>"
  let ?b1 = "b[position := c]"
  have g: "getchar w = (Some c, ?w1)" using Cons.prems by (simp add: getchar_def)
  have c: "c \<noteq> CHR 0x0A" using Cons.prems by auto
  have st: "read_store (Some b) position (Some c) ?w1 = Return (Inr (Some ?b1)) ?w1"
    using Cons.prems c by (simp add: read_store_def)
  have np: "\<not> INT_MAX \<le> position" using Cons.prems by simp
  have gr: "read_grow os (Some ?b1) (Suc position) bufsize ?w1 = Return (Some ?b1, bufsize) ?w1"
    using Cons.prems by (simp add: read_grow_def)
  have "read_loop os (Some ?b1) (position + 1) bufsize ?w1 =
          Return (c_string (take (position + 1) ?b1 @ cs)) (?w1\<lparr>w_stdin := rest\<rparr>)"
    using Cons.prems by (intro Cons.IH) auto
  moreover have "take (position + 1) ?b1 = take position b @ [c]"
    using Cons.prems by (simp add: take_Suc_conv_app_nth)
  ultimately have rec: "read_loop os (Some ?b1) (Suc position) bufsize ?w1 =
          Return (c_string (take position b @ c # cs)) (w\<lparr>w_stdin := rest\<rparr>)"
    by simp
  show ?case
    by (subst read_loop.simps) (simp add: g st np gr rec)
qed

lemma tash_read_line_short:
  assumes "os_alloc os tash_RL_BUFSIZE \<noteq> 0" and "CHR 0x0A \<notin> set l" and "NUL \<notin> set l"
    and "length l < tash_RL_BUFSIZE" and "w_stdin w = l @ CHR 0x0A # rest"
  shows "tash_read_line os w = Return l (w\<lparr>w_stdin := rest\<rparr>)"
proof -
  have "read_loop os (Some (replicate tash_RL_BUFSIZE filler)) 0 tash_RL_BUFSIZE w =
          Return (c_string (take 0 (replicate tash_RL_BUFSIZE filler) @ l)) (w\<lparr>w_stdin := rest\<rparr>)"
    using assms by (intro read_loop_short) (auto simp: tash_RL_BUFSIZE_def INT_MAX_def)
  then show ?thesis
    using assms by (simp add: tash_read_line_def malloc_def c_string_id)
qed

lemma main_exit:
  "main os0 w_exit =
     Exit 708527792 (w0\<lparr>w_stdout := prompt @ colour_yellow @ colour_yellow\<rparr>)"
proof -
  let ?w5 = "w_exit\<lparr>w_stdout := prompt\<rparr>"
  have p: "printf colour_cyan (printf ''> '' (printf colour_red (printf ''tash''
               (printf colour_magenta w_exit)))) = ?w5"
    by (simp add: printf_def prompt_def w_exit_def w0_def)
  have r: "tash_read_line os0 ?w5 = Return ''exit'' (?w5\<lparr>w_stdin := []\<rparr>)"
  proof (rule tash_read_line_short)
    show "os_alloc os0 tash_RL_BUFSIZE \<noteq> 0" by (simp add: os0_def)
    show "CHR 0x0A \<notin> set ''exit''" by simp
    show "NUL \<notin> set ''exit''" by (simp add: NUL_def)
    show "length ''exit'' < tash_RL_BUFSIZE" by (simp add: tash_RL_BUFSIZE_def)
    show "w_stdin ?w5 = ''exit'' @ CHR 0x0A # []" by (simp add: w_exit_def)
  qed
  have s1: "strtok ''exit'' = Some (''exit'', [])"
    by (simp add: strtok_def tash_TOK_DELIM_def NUL_def)
  have s: "tash_split_line os0 ''exit'' w = Return \<lparr>av_ptr = 0x55812A3B46B0, av_toks = [''exit'']\<rparr> w" for w
    by (simp add: tash_split_line_def os0_def split_loop_Some[OF s1] split_loop_None strtok_Nil
        tash_TOK_BUFSIZE_def)
  have e: "tash_execute os0 \<lparr>av_ptr = 0x55812A3B46B0, av_toks = [''exit'']\<rparr> w =
      Exit 708527792 (printf colour_yellow w)" for w
    by (simp add: tash_execute_Cons exit_called_with_args_def libc_exit_def)
  have "tash_loop os0 w_exit =
      Exit 708527792 (printf colour_yellow (printf colour_yellow (?w5\<lparr>w_stdin := []\<rparr>)))"
    by (subst tash_loop.simps) (simp only: Let_def p r s e bind_result.simps)
  then show ?thesis by (simp add: main_def printf_def w_exit_def w0_def)
qed

lemma read_grow_ok:
  "\<forall>n. os_alloc os n \<noteq> 0 \<Longrightarrow>
   (\<exists>b n. read_grow os buffer position bufsize w = Return (b, n) w)
   \<or> read_grow os buffer position bufsize w = UB w"
  by (simp add: read_grow_def Let_def realloc_def split: option.splits)

lemma read_loop_EOF_ok:
  assumes "\<forall>n. os_alloc os n \<noteq> 0" and "w_stdin w = []"
  shows "read_loop os buffer position bufsize w = UB w"
proof (induction "INT_MAX - position" arbitrary: position buffer bufsize rule: less_induct)
  case less
  show ?case
  proof (cases "position \<ge> INT_MAX")
    case True
    then show ?thesis using assms(2) by (simp add: read_loop_EOF_unfold)
  next
    case False
    from read_grow_ok[OF assms(1), of buffer "position + 1" bufsize w]
    show ?thesis
    proof
      assume "\<exists>b n. read_grow os buffer (position + 1) bufsize w = Return (b, n) w"
      then obtain b n where g: "read_grow os buffer (position + 1) bufsize w = Return (b, n) w"
        by auto
      have "read_loop os b (position + 1) n w = UB w"
        using False by (intro less.hyps) auto
      then show ?thesis using False g assms(2) by (simp add: read_loop_EOF_unfold)
    next
      assume "read_grow os buffer (position + 1) bufsize w = UB w"
      then show ?thesis using False assms(2) by (simp add: read_loop_EOF_unfold)
    qed
  qed
qed

lemma tash_read_line_EOF_ok:
  "\<forall>n. os_alloc os n \<noteq> 0 \<Longrightarrow> w_stdin w = [] \<Longrightarrow> tash_read_line os w = UB w"
  by (simp add: tash_read_line_def Let_def malloc_def read_loop_EOF_ok)

lemma main_EOF_ok:
  assumes "\<forall>n. os_alloc os n \<noteq> 0" and "w_stdin w = []"
  shows "main os w = UB (w\<lparr>w_stdout := w_stdout w @ prompt\<rparr>)"
proof -
  let ?w5 = "w\<lparr>w_stdout := w_stdout w @ prompt\<rparr>"
  have p: "printf colour_cyan (printf ''> '' (printf colour_red (printf ''tash''
               (printf colour_magenta w)))) = ?w5"
    by (simp add: printf_def prompt_def)
  have "tash_read_line os ?w5 = UB ?w5"
    using assms by (intro tash_read_line_EOF_ok) auto
  then have "tash_loop os w = UB ?w5"
    by (subst tash_loop.simps) (simp only: Let_def p bind_result.simps)
  then show ?thesis by (simp add: main_def)
qed


lemma bind_result_Exit:
  "bind_result r f = Exit s w \<Longrightarrow> r = Exit s w \<or> (\<exists>u w1. r = Return u w1 \<and> f u w1 = Exit s w)"
  by (cases r) auto

lemma read_store_no_Exit: "read_store buffer position c w \<noteq> Exit s w'"
  by (simp add: read_store_def tash_exit_def split: option.splits)

lemma read_grow_no_Exit: "read_grow os buffer position bufsize w \<noteq> Exit s w'"
  by (simp add: read_grow_def tash_exit_def Let_def)

lemma read_loop_no_Exit: "read_loop os buffer position bufsize w \<noteq> Exit s w'"
proof (induction "INT_MAX - position" arbitrary: position buffer bufsize w rule: less_induct)
  case less
  show ?case
  proof
    assume e: "read_loop os buffer position bufsize w = Exit s w'"
    obtain c w1 where g: "getchar w = (c, w1)" by (cases "getchar w")
    from e g obtain u w2 where
      k: "(case u of
             Inl line \<Rightarrow> Return line w2
           | Inr buffer1 \<Rightarrow>
               if position \<ge> INT_MAX then UB w2
               else bind_result (read_grow os buffer1 (position + 1) bufsize w2)
                      (\<lambda>(buffer2, bufsize2) w3. read_loop os buffer2 (position + 1) bufsize2 w3))
           = Exit s w'"
      by (subst (asm) read_loop.simps) (auto dest!: bind_result_Exit simp: read_store_no_Exit)
    then obtain buffer1 where u: "u = Inr buffer1" and np: "\<not> position \<ge> INT_MAX"
      by (cases u) (auto split: if_splits)
    from k u np obtain buffer2 bufsize2 w3 where
      "read_loop os buffer2 (position + 1) bufsize2 w3 = Exit s w'"
      by (auto dest!: bind_result_Exit simp: read_grow_no_Exit)
    moreover have "read_loop os buffer2 (position + 1) bufsize2 w3 \<noteq> Exit s w'"
      using np by (intro less.hyps) auto
    ultimately show False by simp
  qed
qed

lemma tash_read_line_no_Exit: "tash_read_line os w \<noteq> Exit s w'"
  by (simp add: tash_read_line_def Let_def tash_exit_def read_loop_no_Exit)

lemma split_loop_no_Exit: "split_loop os tokens stored bufsize rest w \<noteq> Exit s w'"
proof (induction rest arbitrary: tokens stored bufsize w rule: length_induct)
  case (1 rest)
  show ?case
  proof (cases "strtok rest")
    case None
    then show ?thesis by (simp add: split_loop_None)
  next
    case (Some p)
    obtain token rest' where st: "strtok rest = Some (token, rest')"
      using Some by (cases p) simp
    have "length rest' < length rest" using st by (rule strtok_shorter)
    then have IH: "\<And>tokens stored bufsize w. split_loop os tokens stored bufsize rest' w \<noteq> Exit s w'"
      using "1.IH" by blast
    show ?thesis by (simp add: split_loop_Some[OF st] IH)
  qed
qed

lemma tash_split_line_no_Exit: "tash_split_line os line w \<noteq> Exit s w'"
  by (simp add: tash_split_line_def Let_def tash_exit_def split_loop_no_Exit)


section \<open>The claims\<close>

text \<open>
  Claim C1, on the code. With standard input at its end the reader does not end the
  program: \<^verbatim>\<open>tash_exit(EXIT_SUCCESS)\<close> returns \<open>0\<close>, the loop goes on reading, and the
  counters run until they overflow. \<^verbatim>\<open>main\<close> does not exit with the success status.
\<close>

theorem eof_does_not_exit:
  "tash_read_line os0 w0 = UB w0
   \<and> main os0 w0 = UB (w0\<lparr>w_stdout := prompt\<rparr>)
   \<and> (\<forall>w'. main os0 w0 \<noteq> Exit EXIT_SUCCESS w')"
  using tash_read_line_EOF_ok[OF os0_alloc, of w0] main_EOF_ok[OF os0_alloc, of w0]
  by (simp add: w0_def)

text \<open>
  Claim C2, on the code. The registry entry for \<^verbatim>\<open>exit\<close> is the C library's \<^verbatim>\<open>exit\<close>, called
  with the argument vector: dispatch does not return \<open>0\<close> to the loop, the process ends inside
  it, and its status is taken from the address of the vector (here \<open>176\<close>, not success),
  with or without arguments; \<^verbatim>\<open>main\<close> on the input line \<^verbatim>\<open>exit\<close> ends the same way.
\<close>

theorem exit_builtin_leaves_process:
  "tash_execute os0 \<lparr>av_ptr = 0x55812A3B46B0, av_toks = [''exit'']\<rparr> w0 =
     Exit 708527792 (w0\<lparr>w_stdout := colour_yellow\<rparr>)
   \<and> tash_execute os0 \<lparr>av_ptr = 0x55812A3B46B0, av_toks = [''exit'', ''0'']\<rparr> w0 =
     Exit 708527792 (w0\<lparr>w_stdout := colour_yellow\<rparr>)
   \<and> main os0 w_exit =
     Exit 708527792 (w0\<lparr>w_stdout := prompt @ colour_yellow @ colour_yellow\<rparr>)
   \<and> exit_code 708527792 = 176"
  using main_exit
  by (simp add: tash_execute_Cons exit_called_with_args_def libc_exit_def printf_def w0_def
      exit_code_def)

text \<open>
  Claim C3, on the code. When every allocation fails the reader prints the diagnostic,
  reads the next character and stores it through the null pointer; the tokenizer prints the
  diagnostic, calls \<^verbatim>\<open>strtok\<close> and stores the token through the null pointer. Neither ends
  the process at the failed allocation: whatever the allocator answers and whatever the
  input is, neither function leaves through \<^verbatim>\<open>exit\<close>.
\<close>

theorem allocation_failure_goes_on:
  "tash_read_line os_nomem w_ls =
     UB (w_ls\<lparr>w_stdin := ''s'' @ [CHR 0x0A], w_stderr := alloc_error\<rparr>)
   \<and> tash_split_line os_nomem ''ls'' w0 = UB (w0\<lparr>w_stderr := alloc_error\<rparr>)
   \<and> tash_read_line os w \<noteq> Exit status w'
   \<and> tash_split_line os line w \<noteq> Exit status w'"
proof -
  have a: "os_alloc os_nomem n = 0" for n by (simp add: os_nomem_def os0_def)
  have "tash_read_line os_nomem w_ls =
     UB (w_ls\<lparr>w_stdin := ''s'' @ [CHR 0x0A], w_stderr := alloc_error\<rparr>)"
    by (simp add: tash_read_line_def malloc_def a tash_exit_def fprintf_stderr_def
        read_loop.simps[of _ None] getchar_def read_store_def w_ls_def w0_def)
  moreover have "strtok ''ls'' = Some (''ls'', [])"
    by (simp add: strtok_def tash_TOK_DELIM_def NUL_def)
  then have "tash_split_line os_nomem ''ls'' w0 = UB (w0\<lparr>w_stderr := alloc_error\<rparr>)"
    by (simp add: tash_split_line_def a tash_exit_def fprintf_stderr_def split_loop_Some w0_def)
  ultimately show ?thesis
    by (simp add: tash_read_line_no_Exit tash_split_line_no_Exit)
qed

text \<open>
  Claim C4, on the code. In the child, when \<^verbatim>\<open>execvp\<close> fails, the error is printed,
  \<^verbatim>\<open>tash_exit(EXIT_FAILURE)\<close> returns \<open>0\<close>, and the launcher returns \<open>1\<close>: the child does not
  end, it goes back to the interaction loop.
\<close>

theorem exec_failure_child_returns:
  "tash_launch os_child \<lparr>av_ptr = 0x55812A3B46B0, av_toks = [''not_a_real_program_xyz'']\<rparr> w0 =
     Return 1 (w0\<lparr>w_stderr := ''tash: No such file or directory'' @ [CHR 0x0A]\<rparr>)
   \<and> tash_execute os_child \<lparr>av_ptr = 0x55812A3B46B0, av_toks = [''not_a_real_program_xyz'']\<rparr> w0 =
     Return 1 (w0\<lparr>w_stdout := colour_yellow,
                  w_stderr := ''tash: No such file or directory'' @ [CHR 0x0A]\<rparr>)"
  by (simp add: tash_execute_Cons tash_launch_def os_child_def os0_def tash_exit_def perror_def
      fprintf_stderr_def printf_def w0_def)

text \<open>
  Claim C5. When the allocations succeed, the tokenizer returns exactly the maximal runs of
  non-delimiter characters of the line, in order (for a line without \<open>NUL\<close>, as every C
  string is, and of a length an \<^verbatim>\<open>int\<close> can count); the line of the example yields
  \<^verbatim>\<open>echo\<close>, \<^verbatim>\<open>a\<close>, \<^verbatim>\<open>b\<close>, \<^verbatim>\<open>c\<close>; a line of delimiters only yields the empty vector.
\<close>

theorem tokens_are_maximal_runs:
  assumes "\<forall>n. os_alloc os n \<noteq> 0"
  shows "(NUL \<notin> set line \<and> length line \<le> INT_MAX \<longrightarrow>
            (\<exists>p. tash_split_line os line w =
                   Return \<lparr>av_ptr = p, av_toks = maximal_runs line\<rparr> w))
       \<and> (\<exists>p. tash_split_line os example_line w =
                   Return \<lparr>av_ptr = p, av_toks = [''echo'', ''a'', ''b'', ''c'']\<rparr> w)
       \<and> (set line \<subseteq> set tash_TOK_DELIM \<and> length line \<le> INT_MAX \<longrightarrow>
            (\<exists>p. tash_split_line os line w = Return \<lparr>av_ptr = p, av_toks = []\<rparr> w))"
proof (intro conjI impI)
  assume a: "NUL \<notin> set line \<and> length line \<le> INT_MAX"
  then have "length (strtok_all line) + tash_TOK_BUFSIZE \<le> INT_MAX" by (simp add: count_fits)
  from tash_split_line_all[OF assms this, of w] a
  show "\<exists>p. tash_split_line os line w = Return \<lparr>av_ptr = p, av_toks = maximal_runs line\<rparr> w"
    by (auto simp: strtok_all_runs)
next
  have "length (strtok_all example_line) + tash_TOK_BUFSIZE \<le> INT_MAX"
    by (simp add: strtok_example INT_MAX_def tash_TOK_BUFSIZE_def)
  from tash_split_line_all[OF assms this, of w]
  show "\<exists>p. tash_split_line os example_line w =
           Return \<lparr>av_ptr = p, av_toks = [''echo'', ''a'', ''b'', ''c'']\<rparr> w"
    by (auto simp: strtok_example)
next
  assume a: "set line \<subseteq> set tash_TOK_DELIM \<and> length line \<le> INT_MAX"
  then have d: "\<forall>c\<in>set line. c \<in> set tash_TOK_DELIM" by auto
  then have e: "strtok_all line = []"
    by (induction line) (simp_all add: strtok_all_Nil strtok_all_delim)
  then have "length (strtok_all line) + tash_TOK_BUFSIZE \<le> INT_MAX"
    by (simp add: INT_MAX_def tash_TOK_BUFSIZE_def)
  from tash_split_line_all[OF assms this, of w]
  show "\<exists>p. tash_split_line os line w = Return \<lparr>av_ptr = p, av_toks = []\<rparr> w"
    by (auto simp: e)
qed

theorem tokens_are_maximal_runs_witness:
  "(\<forall>n. os_alloc os0 n \<noteq> 0)
   \<and> NUL \<notin> set ''ls  -l'' \<and> length ''ls  -l'' \<le> INT_MAX
   \<and> (\<exists>p. tash_split_line os0 ''ls  -l'' w0 =
          Return \<lparr>av_ptr = p, av_toks = maximal_runs ''ls  -l''\<rparr> w0)
   \<and> maximal_runs ''ls  -l'' = [''ls'', ''-l'']
   \<and> (\<exists>p. tash_split_line os0 example_line w0 =
          Return \<lparr>av_ptr = p, av_toks = [''echo'', ''a'', ''b'', ''c'']\<rparr> w0)
   \<and> set [CHR 0x20, CHR 0x09] \<subseteq> set tash_TOK_DELIM
   \<and> (\<exists>p. tash_split_line os0 [CHR 0x20, CHR 0x09] w0 = Return \<lparr>av_ptr = p, av_toks = []\<rparr> w0)"
proof -
  have n: "NUL \<notin> set ''ls  -l''" by (simp add: NUL_def)
  have l: "length ''ls  -l'' \<le> INT_MAX" by (simp add: INT_MAX_def)
  have d: "set [CHR 0x20, CHR 0x09] \<subseteq> set tash_TOK_DELIM" by (simp add: tash_TOK_DELIM_def)
  have l2: "length [CHR 0x20 :: char, CHR 0x09] \<le> INT_MAX" by (simp add: INT_MAX_def)
  have m: "maximal_runs ''ls  -l'' = [''ls'', ''-l'']"
    using strtok_all_runs[OF n]
    by (simp add: strtok_all.simps strtok_def tash_TOK_DELIM_def NUL_def)
  show ?thesis
    using tokens_are_maximal_runs[OF os0_alloc, of "''ls  -l''" w0]
      tokens_are_maximal_runs[OF os0_alloc, of "[CHR 0x20, CHR 0x09]" w0]
      n l d l2 m os0_alloc
    by simp
qed

text \<open>
  Claim C6. \<^verbatim>\<open>cd\<close> with no path argument writes the usage message to standard error and
  leaves the working directory alone; with a path for which \<^verbatim>\<open>chdir\<close> fails it writes the
  system's error text and leaves the working directory alone; with a path \<^verbatim>\<open>chdir\<close> accepts
  the working directory becomes the one \<^verbatim>\<open>chdir\<close> set. In every case it returns \<open>1\<close>
  (Continue).
\<close>

theorem cd_contract:
  "(av_toks args = [arg0] \<longrightarrow>
      cd os args w = Return 1 (w\<lparr>w_stderr := w_stderr w @ usage_error\<rparr>))
   \<and> (av_toks args = arg0 # path # extra \<and> os_chdir os (w_cwd w) path = Inl e \<longrightarrow>
      cd os args w =
        Return 1 (w\<lparr>w_stderr := w_stderr w @ ''tash: '' @ os_strerror os e @ [CHR 0x0A]\<rparr>))
   \<and> (av_toks args = arg0 # path # extra \<and> os_chdir os (w_cwd w) path = Inr d \<longrightarrow>
      cd os args w = Return 1 (w\<lparr>w_cwd := d\<rparr>))"
  by (simp add: cd_def perror_def fprintf_stderr_def)

theorem cd_contract_witness:
  "cd os0 \<lparr>av_ptr = 0x55812A3B46B0, av_toks = [''cd'']\<rparr> w0 =
     Return 1 (w0\<lparr>w_stderr := usage_error\<rparr>)
   \<and> os_chdir os0 (w_cwd w0) ''/nonexistent'' = Inl 2
   \<and> cd os0 \<lparr>av_ptr = 0x55812A3B46B0, av_toks = [''cd'', ''/nonexistent'']\<rparr> w0 =
     Return 1 (w0\<lparr>w_stderr := ''tash: No such file or directory'' @ [CHR 0x0A]\<rparr>)
   \<and> os_chdir os0 (w_cwd w0) ''/tmp'' = Inr ''/tmp''
   \<and> cd os0 \<lparr>av_ptr = 0x55812A3B46B0, av_toks = [''cd'', ''/tmp'', ''x'']\<rparr> w0 =
     Return 1 (w0\<lparr>w_cwd := ''/tmp''\<rparr>)"
  using cd_contract[of "\<lparr>av_ptr = 0x55812A3B46B0, av_toks = [''cd'']\<rparr>" "''cd''" os0 w0]
    cd_contract[of "\<lparr>av_ptr = 0x55812A3B46B0, av_toks = [''cd'', ''/nonexistent'']\<rparr>"
      "''cd''" os0 w0 "''/nonexistent''" "[]" 2]
    cd_contract[of "\<lparr>av_ptr = 0x55812A3B46B0, av_toks = [''cd'', ''/tmp'', ''x'']\<rparr>"
      "''cd''" os0 w0 "''/tmp''" "[''x'']" _ "''/tmp''"]
  by (simp add: os0_def w0_def)

text \<open>
  Claim C7. For an empty argument vector dispatch returns \<open>1\<close> (Continue) and does nothing
  else: it calls no builtin and launches nothing (the result does not depend on the
  environment; the working directory, standard input and standard error stay as they are).
  The world after it differs from the world before it only by the colour escape sequence
  that \<^verbatim>\<open>tash_execute\<close> writes to standard output before it looks at the vector, which is
  terminal presentation and outside what the specification covers.
\<close>

theorem empty_dispatch:
  "av_toks args = [] \<Longrightarrow>
   tash_execute os args w = Return 1 (w\<lparr>w_stdout := w_stdout w @ colour_yellow\<rparr>)"
  by (simp add: tash_execute_Nil printf_def)

theorem empty_dispatch_witness:
  "tash_execute os0 \<lparr>av_ptr = 0x55812A3B46B0, av_toks = []\<rparr> w0 =
     Return 1 (w0\<lparr>w_stdout := colour_yellow\<rparr>)"
  using empty_dispatch[of "\<lparr>av_ptr = 0x55812A3B46B0, av_toks = []\<rparr>" os0 w0]
  by (simp add: w0_def)

text \<open>
  Claim C8. When the allocations succeed, joining non-empty tokens that hold no delimiter
  (and no \<open>NUL\<close>) with single spaces and splitting the result gives the tokens back.
\<close>

theorem split_join_roundtrip:
  assumes "\<forall>t\<in>set ts. t \<noteq> [] \<and> (\<forall>c\<in>set t. c \<notin> set tash_TOK_DELIM \<and> c \<noteq> NUL)"
    and "\<forall>n. os_alloc os n \<noteq> 0"
    and "length (join_spaces ts) \<le> INT_MAX"
  shows "\<exists>p. tash_split_line os (join_spaces ts) w = Return \<lparr>av_ptr = p, av_toks = ts\<rparr> w"
proof -
  have n: "NUL \<notin> set (join_spaces ts)" using assms(1) by (rule join_spaces_NUL)
  have "length (strtok_all (join_spaces ts)) + tash_TOK_BUFSIZE \<le> INT_MAX"
    using n assms(3) by (rule count_fits)
  from tash_split_line_all[OF assms(2) this, of w]
  show ?thesis by (auto simp: strtok_all_join[OF assms(1)])
qed

theorem split_join_roundtrip_witness:
  "(\<forall>n. os_alloc os0 n \<noteq> 0)
   \<and> join_spaces [''ls'', ''-l'', ''/tmp''] = ''ls -l /tmp''
   \<and> (\<exists>p. tash_split_line os0 ''ls -l /tmp'' w0 =
          Return \<lparr>av_ptr = p, av_toks = [''ls'', ''-l'', ''/tmp'']\<rparr> w0)"
proof -
  have v: "\<forall>t\<in>set [''ls'', ''-l'', ''/tmp''].
       t \<noteq> [] \<and> (\<forall>c\<in>set t. c \<notin> set tash_TOK_DELIM \<and> c \<noteq> NUL)"
    by (simp add: tash_TOK_DELIM_def NUL_def)
  have l: "length (join_spaces [''ls'', ''-l'', ''/tmp'']) \<le> INT_MAX"
    by (simp add: INT_MAX_def)
  show ?thesis
    using split_join_roundtrip[OF v os0_alloc l, of w0] os0_alloc by simp
qed

text \<open>
  Claim C9. When the first token is not \<^verbatim>\<open>exit\<close> (or there is none), dispatch returns \<open>1\<close>
  (Continue). The two ways it does not return at all are the environment's: in the forked
  child \<^verbatim>\<open>execvp\<close> has replaced the process image, or the child never ends and the parent
  stays in \<^verbatim>\<open>waitpid\<close>. It never returns \<open>0\<close>, never leaves through \<^verbatim>\<open>exit\<close> and never runs
  into undefined behaviour.
\<close>

theorem only_exit_terminates:
  assumes "av_toks args = [] \<or> hd (av_toks args) \<noteq> ''exit''"
  shows "(\<exists>w'. tash_execute os args w = Return 1 w')
   \<or> (\<exists>w'. tash_execute os args w = Exec (av_toks args) w'
        \<and> os_fork os = Fork_Child \<and> os_execvp os (av_toks args) = None)
   \<or> (\<exists>w'. tash_execute os args w = Blocked w'
        \<and> (\<exists>pid. os_fork os = Fork_Parent pid) \<and> \<not> wait_loop (os_wait os))"
proof (cases "av_toks args")
  case Nil
  then show ?thesis by (simp add: tash_execute_Nil)
next
  case (Cons arg0 rest)
  with assms have ne: "arg0 \<noteq> ''exit''" by simp
  show ?thesis
    using ne help_Return[of os args "printf colour_yellow w"]
      cd_Return[of args os "printf colour_yellow w"]
      launch_cases[of os args "printf colour_yellow w"] Cons
    unfolding tash_execute_Cons[OF Cons] by auto
qed

theorem only_exit_terminates_witness:
  "hd (av_toks \<lparr>av_ptr = 0x55812A3B46B0, av_toks = [''ls'', ''-l'']\<rparr>) \<noteq> ''exit''
   \<and> tash_execute os0 \<lparr>av_ptr = 0x55812A3B46B0, av_toks = [''ls'', ''-l'']\<rparr> w0 =
     Return 1 (w0\<lparr>w_stdout := colour_yellow\<rparr>)
   \<and> tash_execute os0 \<lparr>av_ptr = 0x55812A3B46B0, av_toks = [''cd'', ''/tmp'']\<rparr> w0 =
     Return 1 (w0\<lparr>w_stdout := colour_yellow, w_cwd := ''/tmp''\<rparr>)
   \<and> (\<exists>w'. tash_execute os0 \<lparr>av_ptr = 0x55812A3B46B0, av_toks = [''help'']\<rparr> w0 =
     Return 1 w')"
  using only_exit_terminates[of "\<lparr>av_ptr = 0x55812A3B46B0, av_toks = [''ls'', ''-l'']\<rparr>" os0 w0]
    only_exit_terminates[of "\<lparr>av_ptr = 0x55812A3B46B0, av_toks = [''help'']\<rparr>" os0 w0]
  by (simp add: tash_execute_Cons tash_launch_def os0_def WIFEXITED_def WIFSIGNALED_def
      printf_def w0_def cd_def help_cmd_def)

text \<open>
  Claim C10. \<^verbatim>\<open>cd\<close> looks at the second element of the vector only: whatever follows the
  path changes neither the result nor the world, called directly or through dispatch.
\<close>

theorem cd_ignores_extra:
  "cd os \<lparr>av_ptr = p, av_toks = arg0 # path # extra\<rparr> w =
     cd os \<lparr>av_ptr = p, av_toks = [arg0, path]\<rparr> w
   \<and> tash_execute os \<lparr>av_ptr = p, av_toks = ''cd'' # path # extra\<rparr> w =
     tash_execute os \<lparr>av_ptr = p, av_toks = [''cd'', path]\<rparr> w"
  by (simp add: cd_def tash_execute_Cons)

end
